theory Spec2Isabelle
  imports Main "HOL-Library.Product_Lexorder" "HOL-Library.Multiset" "HOL-Library.Sublist"
    "HOL-Library.AList"
begin

section \<open>Python values used by \<open>users.py\<close>\<close>

text \<open>
  Exceptions are values. \<open>ValueError\<close> is raised by the tuple unpacking in
  \<open>splitLine\<close> and by \<open>datetime.strptime\<close>; \<open>AttributeError\<close> is raised by
  \<open>matches.group(1)\<close> when \<open>re.search\<close> returned \<open>None\<close>.
\<close>

datatype error = ValueError | AttributeError

text \<open>
  A naive \<open>datetime\<close> is the tuple (year, month, day, hour, minute, second, microsecond);
  Python compares two naive datetimes lexicographically on these fields, which is the order
  of \<open>Product_Lexorder\<close> on the nested pair.
\<close>

type_synonym datetime = "nat \<times> nat \<times> nat \<times> nat \<times> nat \<times> nat \<times> nat"

text \<open>The coordinates of a location are the integers of the default \<open>(0, 0)\<close> or the
  strings returned by \<open>matches.group\<close>.\<close>

datatype pyval = PInt int | PStr string

text \<open>Characters are the code points below 256. \<open>isspace\<close> is \<open>str.isspace\<close> on them,
  which is also the class \<open>\s\<close> of \<open>re\<close>.\<close>

definition isspace :: "char \<Rightarrow> bool" where
  "isspace c = (let n = (of_char c :: nat) in
     (9 \<le> n \<and> n \<le> 13) \<or> (28 \<le> n \<and> n \<le> 32) \<or> n = 133 \<or> n = 160)"

definition isdigit :: "char \<Rightarrow> bool" where
  "isdigit c = (let n = (of_char c :: nat) in 48 \<le> n \<and> n \<le> 57)"

definition strip :: "string \<Rightarrow> string" where
  "strip s = rev (dropWhile isspace (rev (dropWhile isspace s)))"

text \<open>\<open>s.split(sep, 1)\<close> for a separator of one character.\<close>

definition split1 :: "char \<Rightarrow> string \<Rightarrow> string list" where
  "split1 sep s =
     (case dropWhile (\<lambda>c. c \<noteq> sep) s of
        [] \<Rightarrow> [s]
      | _ # rest \<Rightarrow> [takeWhile (\<lambda>c. c \<noteq> sep) s, rest])"

text \<open>\<open>sub in s\<close> on strings.\<close>

fun py_in :: "string \<Rightarrow> string \<Rightarrow> bool" where
  "py_in sub [] = (sub = [])"
| "py_in sub (c # cs) = (prefix sub (c # cs) \<or> py_in sub cs)"

text \<open>\<open>int(s)\<close> on a string of decimal digits with surrounding white space.\<close>

definition digit_val :: "char \<Rightarrow> nat" where
  "digit_val c = of_char c - 48"

definition py_int :: "string \<Rightarrow> nat" where
  "py_int s = foldl (\<lambda>n c. 10 * n + digit_val c) 0 (strip s)"

text \<open>\<open>str(n)\<close> for a natural number.\<close>

definition digit_chr :: "nat \<Rightarrow> char" where
  "digit_chr d = char_of (48 + d)"

fun py_str :: "nat \<Rightarrow> string" where
  "py_str n = (if n < 10 then [digit_chr n] else py_str (n div 10) @ [digit_chr (n mod 10)])"

section \<open>Regular expressions with backtracking\<close>

text \<open>
  The fragment of \<open>re\<close> that the patterns of \<open>users.py\<close> and of \<open>strptime\<close> use: literal
  characters, \<open>.\<close>, \<open>\d\<close>, \<open>\s\<close>, ranges, greedy bounded repetition of one character class,
  sequence, ordered alternation and capturing groups. \<open>rx_all\<close> lists the ways a pattern
  matches a prefix of the input in the order in which the backtracking matcher tries
  them; the head of the list is the match \<open>re\<close> reports.
\<close>

datatype atom = Lit char | Dot | Digit | Space | Range char char

datatype rx =
    Atom atom
  | Rep atom nat "nat option"
  | Seq rx rx
  | Alt rx rx
  | Grp string rx

fun atom_ok :: "atom \<Rightarrow> char \<Rightarrow> bool" where
  "atom_ok (Lit x) c = (c = x)"
| "atom_ok Dot c = (c \<noteq> CHR 0x0A)"
| "atom_ok Digit c = isdigit c"
| "atom_ok Space c = isspace c"
| "atom_ok (Range lo hi) c = ((of_char lo :: nat) \<le> of_char c \<and> (of_char c :: nat) \<le> of_char hi)"

text \<open>The remainders after a greedy repetition, the longest match first.\<close>

fun rep_all :: "atom \<Rightarrow> nat \<Rightarrow> nat option \<Rightarrow> string \<Rightarrow> string list" where
  "rep_all a lo hi [] = (if lo = 0 then [[]] else [])"
| "rep_all a lo hi (c # cs) =
     (if atom_ok a c \<and> hi \<noteq> Some 0
      then rep_all a (lo - 1) (map_option (\<lambda>h. h - 1) hi) cs
      else []) @ (if lo = 0 then [c # cs] else [])"

text \<open>The groups captured so far, the latest first.\<close>

type_synonym caps = "(string \<times> string) list"

fun rx_all :: "rx \<Rightarrow> string \<times> caps \<Rightarrow> (string \<times> caps) list" where
  "rx_all (Atom a) (s, g) =
     (case s of [] \<Rightarrow> [] | c # cs \<Rightarrow> if atom_ok a c then [(cs, g)] else [])"
| "rx_all (Rep a lo hi) (s, g) = map (\<lambda>s'. (s', g)) (rep_all a lo hi s)"
| "rx_all (Seq r1 r2) (s, g) = concat (map (rx_all r2) (rx_all r1 (s, g)))"
| "rx_all (Alt r1 r2) (s, g) = rx_all r1 (s, g) @ rx_all r2 (s, g)"
| "rx_all (Grp k r) (s, g) =
     map (\<lambda>(s', g'). (s', (k, take (length s - length s') s) # g')) (rx_all r (s, g))"

text \<open>\<open>re.match\<close>: the first match at the start of the string, with what follows it.\<close>

definition re_match :: "rx \<Rightarrow> string \<Rightarrow> (string \<times> caps) option" where
  "re_match r s = (case rx_all r (s, []) of [] \<Rightarrow> None | m # _ \<Rightarrow> Some m)"

text \<open>\<open>re.search\<close>: the first match at the leftmost position that has one.\<close>

fun re_search :: "rx \<Rightarrow> string \<Rightarrow> caps option" where
  "re_search r [] = map_option snd (re_match r [])"
| "re_search r (c # cs) =
     (case re_match r (c # cs) of Some m \<Rightarrow> Some (snd m) | None \<Rightarrow> re_search r cs)"

fun seqs :: "rx \<Rightarrow> rx list \<Rightarrow> rx" where
  "seqs r [] = r"
| "seqs r (r' # rs) = Seq r (seqs r' rs)"

fun alts :: "rx \<Rightarrow> rx list \<Rightarrow> rx" where
  "alts r [] = r"
| "alts r (r' # rs) = Alt r (alts r' rs)"

definition lit :: "char \<Rightarrow> rx" where
  "lit c = Atom (Lit c)"

definition rng :: "char \<Rightarrow> char \<Rightarrow> rx" where
  "rng lo hi = Atom (Range lo hi)"

definition group :: "caps \<Rightarrow> string \<Rightarrow> string" where
  \<comment> \<open>\<open>matches.group(k)\<close>; every group of the patterns below takes part in every match.\<close>
  "group g k = (case map_of g k of Some s \<Rightarrow> s | None \<Rightarrow> [])"

section \<open>\<open>datetime.strptime(s, "%d-%m-%y %H:%M:%S.%f")\<close>\<close>

text \<open>
  \<open>strptime\<close> turns the format into a regular expression (one named group for each
  directive, \<open>\s+\<close> for the blank), matches it at the start of the string with
  \<open>re.match\<close>, raises \<open>ValueError\<close> when it does not match or when characters remain,
  and builds the datetime, which raises \<open>ValueError\<close> for a day the month does not have
  and for a second above 59.
\<close>

definition strptime_rx :: rx where
  "strptime_rx = seqs
     (Grp ''d'' (alts (Seq (lit CHR ''3'') (rng CHR ''0'' CHR ''1''))
        [Seq (rng CHR ''1'' CHR ''2'') (Atom Digit),
         Seq (lit CHR ''0'') (rng CHR ''1'' CHR ''9''),
         rng CHR ''1'' CHR ''9'',
         Seq (lit CHR '' '') (rng CHR ''1'' CHR ''9'')]))
     [lit CHR ''-'',
      Grp ''m'' (alts (Seq (lit CHR ''1'') (rng CHR ''0'' CHR ''2''))
        [Seq (lit CHR ''0'') (rng CHR ''1'' CHR ''9''), rng CHR ''1'' CHR ''9'']),
      lit CHR ''-'',
      Grp ''y'' (Seq (Atom Digit) (Atom Digit)),
      Rep Space 1 None,
      Grp ''H'' (alts (Seq (lit CHR ''2'') (rng CHR ''0'' CHR ''3''))
        [Seq (rng CHR ''0'' CHR ''1'') (Atom Digit), Atom Digit]),
      lit CHR '':'',
      Grp ''M'' (alts (Seq (rng CHR ''0'' CHR ''5'') (Atom Digit)) [Atom Digit]),
      lit CHR '':'',
      Grp ''S'' (alts (Seq (lit CHR ''6'') (rng CHR ''0'' CHR ''1''))
        [Seq (rng CHR ''0'' CHR ''5'') (Atom Digit), Atom Digit]),
      lit CHR ''.'',
      Grp ''f'' (Rep (Range CHR ''0'' CHR ''9'') 1 (Some 6))]"

definition isleap :: "nat \<Rightarrow> bool" where
  "isleap y = (y mod 4 = 0 \<and> (y mod 100 \<noteq> 0 \<or> y mod 400 = 0))"

definition days_in_month :: "nat \<Rightarrow> nat \<Rightarrow> nat" where
  "days_in_month y m =
     (if m = 2 then (if isleap y then 29 else 28)
      else if m = 4 \<or> m = 6 \<or> m = 9 \<or> m = 11 then 30 else 31)"

definition strptime :: "string \<Rightarrow> error + datetime" where
  "strptime s =
     (case re_match strptime_rx s of
        None \<Rightarrow> Inl ValueError
      | Some (rest, found) \<Rightarrow>
          if rest \<noteq> [] then Inl ValueError
          else
            let y = py_int (group found ''y'');
                year = (if y \<le> 68 then y + 2000 else y + 1900);
                month = py_int (group found ''m'');
                day = py_int (group found ''d'');
                hour = py_int (group found ''H'');
                minute = py_int (group found ''M'');
                second = py_int (group found ''S'');
                f = group found ''f'';
                fraction = py_int (f @ replicate (6 - length f) CHR ''0'')
            in if days_in_month year month < day \<or> 59 < second then Inl ValueError
               else Inr (year, month, day, hour, minute, second, fraction))"

section \<open>The data of \<open>users.py\<close>\<close>

record User =
  name :: string
  hoursAlive :: int
  recordHoursAlive :: int
  perks :: "(string \<times> string) list"
  online :: bool
  lastSeen :: datetime
  lastLocation :: "pyval \<times> pyval"
  died :: "datetime list"

text \<open>\<open>User(name)\<close>: the dataclass with its defaults.\<close>

definition User_init :: "string \<Rightarrow> User" where
  "User_init nm =
     \<lparr>name = nm, hoursAlive = 0, recordHoursAlive = 0, perks = [], online = False,
      lastSeen = (1, 1, 1, 0, 0, 0, 0), lastLocation = (PInt 0, PInt 0), died = []\<rparr>"

text \<open>
  The bot, as far as the handler uses it: \<open>bot.channel\<close> is \<open>None\<close> or a channel, which
  holds the messages sent to it; \<open>bot.log\<close> holds the records written; \<open>presence\<close> holds
  the names of the activities set with \<open>change_presence\<close>.
\<close>

datatype loglevel = Info | Debug

record Bot =
  channel :: "string list option"
  logged :: "(loglevel \<times> string) list"
  presence :: "string list"

text \<open>
  The handler. \<open>users\<close> is the dictionary, in insertion order: \<open>map_of\<close> looks a name up
  and \<open>AList.update\<close> assigns to a key, in place when the key is there and at the end
  when it is new.
\<close>

record UserHandler =
  bot :: Bot
  lastUpdateTimestamp :: datetime
  users :: "(string \<times> User) list"
  notifyDisconnect :: bool
  onlineCount :: "nat option"

definition log_info :: "string \<Rightarrow> UserHandler \<Rightarrow> UserHandler" where
  "log_info m h = h\<lparr>bot := (bot h)\<lparr>logged := logged (bot h) @ [(Info, m)]\<rparr>\<rparr>"

definition log_debug :: "string \<Rightarrow> UserHandler \<Rightarrow> UserHandler" where
  "log_debug m h = h\<lparr>bot := (bot h)\<lparr>logged := logged (bot h) @ [(Debug, m)]\<rparr>\<rparr>"

section \<open>The methods of \<open>UserHandler\<close>\<close>

definition getUser :: "string \<Rightarrow> UserHandler \<Rightarrow> User \<times> UserHandler" where
  "getUser nm h =
     (case map_of (users h) nm of
        None \<Rightarrow> (User_init nm, h\<lparr>users := AList.update nm (User_init nm) (users h)\<rparr>)
      | Some u \<Rightarrow> (u, h))"

text \<open>Assigning to the fields of the object that \<open>getUser\<close> returned changes the entry of
  the dictionary under the name it was looked up with.\<close>

definition setUser :: "string \<Rightarrow> User \<Rightarrow> UserHandler \<Rightarrow> UserHandler" where
  "setUser nm u h = h\<lparr>users := AList.update nm u (users h)\<rparr>"

definition splitLine :: "string \<Rightarrow> error + datetime \<times> string" where
  "splitLine line =
     (case split1 CHR '']'' (drop 1 (strip line)) of
        [timestampStr, message] \<Rightarrow>
          (case strptime timestampStr of
             Inl e \<Rightarrow> Inl e
           | Inr timestamp \<Rightarrow> Inr (timestamp, message))
      | _ \<Rightarrow> Inl ValueError)"

text \<open>The pattern \<open>"(.*)".*\((\d+),(\d+),\d+\)\<close> of the disconnect branch.\<close>

definition disconnect_rx :: rx where
  "disconnect_rx = seqs (lit CHR 0x22)
     [Grp ''1'' (Rep Dot 0 None), lit CHR 0x22, Rep Dot 0 None, lit CHR ''('',
      Grp ''2'' (Rep Digit 1 None), lit CHR '','', Grp ''3'' (Rep Digit 1 None),
      lit CHR '','', Rep Digit 1 None, lit CHR '')'']"

text \<open>The pattern \<open>"(.*)".*\((\d+),(\d+)\<close> of the connect branch.\<close>

definition connect_rx :: rx where
  "connect_rx = seqs (lit CHR 0x22)
     [Grp ''1'' (Rep Dot 0 None), lit CHR 0x22, Rep Dot 0 None, lit CHR ''('',
      Grp ''2'' (Rep Digit 1 None), lit CHR '','', Grp ''3'' (Rep Digit 1 None)]"

definition handleLog ::
  "datetime \<Rightarrow> string \<Rightarrow> UserHandler \<Rightarrow> (error + string option) \<times> UserHandler" where
  "handleLog timestamp message h =
     (if py_in ''disconnected'' message then
        (case re_search disconnect_rx message of
           None \<Rightarrow> (Inl AttributeError, h)
         | Some matches \<Rightarrow>
             let nm = group matches ''1'';
                 (user, h1) = getUser nm h;
                 user' = (if timestamp > lastSeen user
                          then user\<lparr>online := False, lastSeen := timestamp,
                                 lastLocation := (PStr (group matches ''2''), PStr (group matches ''3''))\<rparr>
                          else user);
                 h2 = (if timestamp > lastSeen user then setUser nm user' h1 else h1)
             in if timestamp > lastUpdateTimestamp h2 then
                  let h3 = log_info (name user' @ '' disconnected'') h2
                  in if notifyDisconnect h3
                     then (Inr (Some ('':person_running: '' @ name user' @ '' has left'')), h3)
                     else (Inr None, h3)
                else (Inr None, h2))
      else if py_in ''fully connected'' message then
        (case re_search connect_rx message of
           None \<Rightarrow> (Inl AttributeError, h)
         | Some matches \<Rightarrow>
             let nm = group matches ''1'';
                 (user, h1) = getUser nm h;
                 user' = (if timestamp > lastSeen user
                          then user\<lparr>online := True, lastSeen := timestamp,
                                 lastLocation := (PStr (group matches ''2''), PStr (group matches ''3''))\<rparr>
                          else user);
                 h2 = (if timestamp > lastSeen user then setUser nm user' h1 else h1)
             in if timestamp > lastUpdateTimestamp h2
                then (Inr None, log_info (name user' @ '' connected'') h2)
                else (Inr None, h2))
      else if timestamp > lastUpdateTimestamp h
        then (Inr None, log_debug (''Ignored: '' @ message) h)
        else (Inr None, h))"

text \<open>\<open>loadHistory\<close>: the files come with their modification times; the loops stop at the
  first exception, which leaves the handler as it was when it was raised.\<close>

fun load_lines :: "string list \<Rightarrow> UserHandler \<Rightarrow> (error + unit) \<times> UserHandler" where
  "load_lines [] h = (Inr (), h)"
| "load_lines (line # ls) h =
     (case splitLine line of
        Inl e \<Rightarrow> (Inl e, h)
      | Inr (timestamp, message) \<Rightarrow>
          (case handleLog timestamp message h of
             (Inl e, h') \<Rightarrow> (Inl e, h')
           | (Inr _, h') \<Rightarrow> load_lines ls h'))"

fun load_files :: "string list list \<Rightarrow> UserHandler \<Rightarrow> (error + unit) \<times> UserHandler" where
  "load_files [] h = (Inr (), h)"
| "load_files (f # fs) h =
     (case load_lines f h of
        (Inl e, h') \<Rightarrow> (Inl e, h')
      | (Inr _, h') \<Rightarrow> load_files fs h')"

definition loadHistory ::
  "('m::linorder \<times> string list) list \<Rightarrow> UserHandler \<Rightarrow> (error + unit) \<times> UserHandler" where
  "loadHistory files h =
     (case load_files (map snd (sort_key fst files)) (log_info ''Loading user history...'' h) of
        (Inl e, h') \<Rightarrow> (Inl e, h')
      | (Inr _, h') \<Rightarrow> (Inr (), log_info ''User history loaded'' h'))"

text \<open>\<open>update\<close>: one cycle. \<open>files\<close> is the result of \<open>glob\<close>, each file as its lines;
  \<open>FileReadBackwards\<close> yields the lines of the first file from the last to the first.\<close>

definition send :: "string option \<Rightarrow> UserHandler \<Rightarrow> UserHandler" where
  "send message h =
     (case (message, channel (bot h)) of
        (Some m, Some sent) \<Rightarrow> h\<lparr>bot := (bot h)\<lparr>channel := Some (sent @ [m])\<rparr>\<rparr>
      | _ \<Rightarrow> h)"

fun update_loop ::
  "string list \<Rightarrow> datetime \<Rightarrow> UserHandler \<Rightarrow> (error + datetime) \<times> UserHandler" where
  "update_loop [] newTimestamp h = (Inr newTimestamp, h)"
| "update_loop (line # ls) newTimestamp h =
     (case splitLine line of
        Inl e \<Rightarrow> (Inl e, h)
      | Inr (timestamp, message) \<Rightarrow>
          let newTimestamp' = (if timestamp > newTimestamp then timestamp else newTimestamp)
          in if timestamp > lastUpdateTimestamp h then
               (case handleLog timestamp message h of
                  (Inl e, h') \<Rightarrow> (Inl e, h')
                | (Inr m, h') \<Rightarrow> update_loop ls newTimestamp' (send m h'))
             else (Inr newTimestamp', h))"

definition count_online :: "UserHandler \<Rightarrow> nat" where
  "count_online h =
     length (filter (\<lambda>k. case map_of (users h) k of Some u \<Rightarrow> online u | None \<Rightarrow> False)
       (map fst (users h)))"

definition update_presence :: "UserHandler \<Rightarrow> UserHandler" where
  "update_presence h =
     (let n = count_online h
      in if Some n \<noteq> onlineCount h then
           let playerString = (if n = 0 then ''nobody'' else py_str n @ '' survivors'')
           in h\<lparr>bot := (bot h)\<lparr>presence := presence (bot h) @ [''PZ with '' @ playerString]\<rparr>,
                onlineCount := Some n\<rparr>
         else h)"

definition update :: "string list list \<Rightarrow> UserHandler \<Rightarrow> (error + unit) \<times> UserHandler" where
  "update files h =
     (case files of
        [] \<Rightarrow> (Inr (), update_presence h)
      | f # _ \<Rightarrow>
          (case update_loop (rev f) (lastUpdateTimestamp h) h of
             (Inl e, h') \<Rightarrow> (Inl e, h')
           | (Inr newTimestamp, h') \<Rightarrow>
               (Inr (), update_presence (h'\<lparr>lastUpdateTimestamp := newTimestamp\<rparr>))))"

section \<open>Auxiliary notions for the statements\<close>

text \<open>A message is malformed when it carries one of the two markers and the pattern of
  its branch does not match it.\<close>

definition malformed :: "string \<Rightarrow> bool" where
  "malformed m =
     (if py_in ''disconnected'' m then re_search disconnect_rx m = None
      else if py_in ''fully connected'' m then re_search connect_rx m = None
      else False)"

text \<open>The name a connect or disconnect message is about.\<close>

definition event_name :: "string \<Rightarrow> string option" where
  "event_name m =
     (if py_in ''disconnected'' m then map_option (\<lambda>g. group g ''1'') (re_search disconnect_rx m)
      else if py_in ''fully connected'' m then map_option (\<lambda>g. group g ''1'') (re_search connect_rx m)
      else None)"

text \<open>What an accepted connect (\<open>b = True\<close>) or disconnect (\<open>b = False\<close>) event with the
  groups \<open>g\<close> does to the dictionary: \<open>getUser\<close>, then the guarded assignment.\<close>

definition store_event :: "bool \<Rightarrow> datetime \<Rightarrow> caps \<Rightarrow> (string \<times> User) list \<Rightarrow> (string \<times> User) list" where
  "store_event b ts g us =
     (let nm = group g ''1'';
          u = (case map_of us nm of None \<Rightarrow> User_init nm | Some u \<Rightarrow> u);
          us1 = (case map_of us nm of None \<Rightarrow> AList.update nm (User_init nm) us | Some _ \<Rightarrow> us)
      in if ts > lastSeen u
         then AList.update nm
                (u\<lparr>online := b, lastSeen := ts,
                   lastLocation := (PStr (group g ''2''), PStr (group g ''3''))\<rparr>) us1
         else us1)"

text \<open>The same on the dictionary seen as a map from names to entries, and the step one
  event, a timestamp and a message, makes on that map.\<close>

definition abs_event :: "bool \<Rightarrow> datetime \<Rightarrow> caps \<Rightarrow> (string \<rightharpoonup> User) \<Rightarrow> (string \<rightharpoonup> User)" where
  "abs_event b ts g um =
     (let nm = group g ''1'';
          u = (case um nm of None \<Rightarrow> User_init nm | Some u \<Rightarrow> u)
      in um(nm \<mapsto>
           (if ts > lastSeen u
            then u\<lparr>online := b, lastSeen := ts,
                   lastLocation := (PStr (group g ''2''), PStr (group g ''3''))\<rparr>
            else u)))"

definition abs_step :: "datetime \<times> string \<Rightarrow> (string \<rightharpoonup> User) \<Rightarrow> (string \<rightharpoonup> User)" where
  "abs_step e um =
     (if py_in ''disconnected'' (snd e) then
        (case re_search disconnect_rx (snd e) of None \<Rightarrow> um
         | Some g \<Rightarrow> abs_event False (fst e) g um)
      else if py_in ''fully connected'' (snd e) then
        (case re_search connect_rx (snd e) of None \<Rightarrow> um
         | Some g \<Rightarrow> abs_event True (fst e) g um)
      else um)"

text \<open>Applying a sequence of events, each a timestamp and a message, by successive calls of
  \<open>handleLog\<close>; an exception ends the sequence.\<close>

fun handleLogs :: "(datetime \<times> string) list \<Rightarrow> UserHandler \<Rightarrow> (error + unit) \<times> UserHandler" where
  "handleLogs [] h = (Inr (), h)"
| "handleLogs ((ts, m) # es) h =
     (case handleLog ts m h of
        (Inl e, h') \<Rightarrow> (Inl e, h')
      | (Inr _, h') \<Rightarrow> handleLogs es h')"

text \<open>The message \<open>handleLog\<close> returns, \<open>None\<close> also when it raises.\<close>

definition reply :: "datetime \<Rightarrow> string \<Rightarrow> UserHandler \<Rightarrow> string option" where
  "reply ts m h = (case fst (handleLog ts m h) of Inl _ \<Rightarrow> None | Inr r \<Rightarrow> r)"

text \<open>The timestamp of a line is newer than a watermark.\<close>

definition newer :: "datetime \<Rightarrow> string \<Rightarrow> bool" where
  "newer w line = (case splitLine line of Inl _ \<Rightarrow> False | Inr (ts, _) \<Rightarrow> w < ts)"

definition stamp :: "string \<Rightarrow> datetime" where
  "stamp line = (case splitLine line of Inl _ \<Rightarrow> (1, 1, 1, 0, 0, 0, 0) | Inr (ts, _) \<Rightarrow> ts)"

text \<open>The lines of the scenarios.\<close>

definition msg_connect :: string where
  \<open>msg_connect = ''"Alice" fully connected (5,5,0)''\<close>

definition msg_disconnect :: string where
  \<open>msg_disconnect = ''"Alice" disconnected (6,6,0)''\<close>

definition line_connect :: string where
  "line_connect = ''[01-01-24 10:00:00.000]'' @ msg_connect"

definition line_disconnect :: string where
  "line_disconnect = ''[01-01-24 10:05:00.000]'' @ msg_disconnect"

definition line_stale :: string where
  "line_stale = ''[01-01-24 09:00:00.000]hello''"

definition line_bad :: string where
  "line_bad = ''01-01-24 10:00:00.000 no bracket''"

definition msg_bad :: string where
  "msg_bad = ''somebody disconnected''"

definition handler0 :: UserHandler where
  "handler0 =
     \<lparr>bot = \<lparr>channel = Some [], logged = [], presence = []\<rparr>,
      lastUpdateTimestamp = (2024, 1, 1, 9, 30, 0, 0), users = [],
      notifyDisconnect = True, onlineCount = None\<rparr>"

section \<open>Facts about \<open>handleLog\<close>\<close>

lemma getUser_frame:
  "lastUpdateTimestamp (snd (getUser nm h)) = lastUpdateTimestamp h"
  "bot (snd (getUser nm h)) = bot h"
  "notifyDisconnect (snd (getUser nm h)) = notifyDisconnect h"
  "onlineCount (snd (getUser nm h)) = onlineCount h"
  by (simp_all add: getUser_def split: option.splits)

lemma handleLog_frame:
  "lastUpdateTimestamp (snd (handleLog ts m h)) = lastUpdateTimestamp h"
  "channel (bot (snd (handleLog ts m h))) = channel (bot h)"
  "presence (bot (snd (handleLog ts m h))) = presence (bot h)"
  "notifyDisconnect (snd (handleLog ts m h)) = notifyDisconnect h"
  "onlineCount (snd (handleLog ts m h)) = onlineCount h"
  by (simp_all add: handleLog_def Let_def split_beta getUser_frame setUser_def log_info_def
      log_debug_def split: option.splits)

lemma handleLog_malformed:
  "malformed m \<Longrightarrow> handleLog ts m h = (Inl AttributeError, h)"
  by (simp add: handleLog_def malformed_def split: if_splits)

lemma handleLog_wellformed:
  "\<not> malformed m \<Longrightarrow> \<exists>r. fst (handleLog ts m h) = Inr r"
  by (auto simp add: handleLog_def malformed_def Let_def split_beta)

lemma users_getUser:
  "users (snd (getUser nm h)) =
     (case map_of (users h) nm of None \<Rightarrow> AList.update nm (User_init nm) (users h) | Some _ \<Rightarrow> users h)"
  "fst (getUser nm h) = (case map_of (users h) nm of None \<Rightarrow> User_init nm | Some u \<Rightarrow> u)"
  by (simp_all add: getUser_def split: option.splits)

lemma users_log:
  "users (log_info s h) = users h" "users (log_debug s h) = users h"
  by (simp_all add: log_info_def log_debug_def)

lemma users_handleLog:
  "users (snd (handleLog ts m h)) =
     (if py_in ''disconnected'' m then
        (case re_search disconnect_rx m of None \<Rightarrow> users h
         | Some g \<Rightarrow> store_event False ts g (users h))
      else if py_in ''fully connected'' m then
        (case re_search connect_rx m of None \<Rightarrow> users h
         | Some g \<Rightarrow> store_event True ts g (users h))
      else users h)"
  by (simp add: handleLog_def store_event_def Let_def split_beta users_getUser setUser_def
      users_log split: option.splits)

section \<open>Facts about the loops\<close>

lemma load_lines_Cons:
  "load_lines (l # ls) h =
     (case splitLine l of
        Inl e \<Rightarrow> (Inl e, h)
      | Inr (ts, m) \<Rightarrow>
          if malformed m then (Inl AttributeError, h)
          else load_lines ls (snd (handleLog ts m h)))"
proof (cases "splitLine l")
  case (Inl e)
  then show ?thesis by simp
next
  case (Inr p)
  obtain ts m where p: "p = (ts, m)" by (cases p)
  show ?thesis
  proof (cases "malformed m")
    case True
    then show ?thesis using Inr p by (simp add: handleLog_malformed)
  next
    case False
    then obtain r where "fst (handleLog ts m h) = Inr r"
      using handleLog_wellformed by blast
    then obtain h' where "handleLog ts m h = (Inr r, h')"
      by (cases "handleLog ts m h") simp
    then show ?thesis using Inr p False by simp
  qed
qed

lemma update_loop_Cons:
  "update_loop (l # ls) nt h =
     (case splitLine l of
        Inl e \<Rightarrow> (Inl e, h)
      | Inr (ts, m) \<Rightarrow>
          if lastUpdateTimestamp h < ts then
            (if malformed m then (Inl AttributeError, h)
             else update_loop ls (max nt ts) (send (reply ts m h) (snd (handleLog ts m h))))
          else (Inr (max nt ts), h))"
proof (cases "splitLine l")
  case (Inl e)
  then show ?thesis by simp
next
  case (Inr p)
  obtain ts m where p: "p = (ts, m)" by (cases p)
  have mx: "(if nt < ts then ts else nt) = max nt ts" by (auto simp add: max_def)
  show ?thesis
  proof (cases "malformed m")
    case True
    then show ?thesis using Inr p mx by (simp add: handleLog_malformed Let_def)
  next
    case False
    then obtain r where r: "fst (handleLog ts m h) = Inr r"
      using handleLog_wellformed by blast
    then obtain h' where h': "handleLog ts m h = (Inr r, h')"
      by (cases "handleLog ts m h") simp
    have "reply ts m h = r" using r by (simp add: reply_def)
    then show ?thesis using h' Inr p False mx by (simp add: Let_def)
  qed
qed

lemma load_files_Cons:
  "load_files (f # fs) h =
     (case fst (load_lines f h) of
        Inl e \<Rightarrow> (Inl e, snd (load_lines f h))
      | Inr _ \<Rightarrow> load_files fs (snd (load_lines f h)))"
  by (cases "load_lines f h") (simp split: sum.splits)

declare load_lines.simps(2) [simp del] load_files.simps(2) [simp del]
  update_loop.simps(2) [simp del]

lemma load_lines_frame:
  "lastUpdateTimestamp (snd (load_lines ls h)) = lastUpdateTimestamp h \<and>
   channel (bot (snd (load_lines ls h))) = channel (bot h)"
proof (induction ls arbitrary: h)
  case Nil
  show ?case by simp
next
  case (Cons l ls)
  show ?case
    unfolding load_lines_Cons
    by (simp add: Cons.IH handleLog_frame split: sum.splits)
qed

lemma load_files_frame:
  "lastUpdateTimestamp (snd (load_files fs h)) = lastUpdateTimestamp h \<and>
   channel (bot (snd (load_files fs h))) = channel (bot h)"
proof (induction fs arbitrary: h)
  case Nil
  show ?case by simp
next
  case (Cons f fs)
  show ?case
    unfolding load_files_Cons
    by (simp add: Cons.IH load_lines_frame split: sum.splits)
qed

lemma loadHistory_eq:
  "loadHistory files h =
     (let r = load_files (map snd (sort_key fst files)) (log_info ''Loading user history...'' h)
      in case fst r of
           Inl e \<Rightarrow> (Inl e, snd r)
         | Inr _ \<Rightarrow> (Inr (), log_info ''User history loaded'' (snd r)))"
  unfolding loadHistory_def Let_def
  by (cases "load_files (map snd (sort_key fst files)) (log_info ''Loading user history...'' h)")
     (simp split: sum.splits)

lemma log_info_frame:
  "lastUpdateTimestamp (log_info s h) = lastUpdateTimestamp h"
  "channel (bot (log_info s h)) = channel (bot h)"
  by (simp_all add: log_info_def)

lemma loadHistory_frame:
  "lastUpdateTimestamp (snd (loadHistory files h)) = lastUpdateTimestamp h \<and>
   channel (bot (snd (loadHistory files h))) = channel (bot h)"
  unfolding loadHistory_eq Let_def
  by (simp add: load_files_frame log_info_frame split: sum.splits)

section \<open>What the loops leave in the dictionary\<close>

lemma dom_store_event:
  "dom (map_of (store_event b ts g us)) = insert (group g ''1'') (dom (map_of us))"
  by (auto simp add: store_event_def Let_def update_conv' split: option.splits if_splits)

lemma dom_handleLog:
  "dom (map_of (users h)) \<subseteq> dom (map_of (users (snd (handleLog ts m h))))"
  unfolding users_handleLog
  by (auto simp add: dom_store_event split: option.splits)

lemma event_name_handleLog:
  "event_name m = Some nm \<Longrightarrow> nm \<in> dom (map_of (users (snd (handleLog ts m h))))"
  unfolding users_handleLog event_name_def
  by (auto simp add: dom_store_event split: option.splits if_splits)

lemma event_name_wellformed: "event_name m = Some nm \<Longrightarrow> \<not> malformed m"
  by (auto simp add: event_name_def malformed_def split: if_splits)

lemma load_lines_dom:
  "dom (map_of (users h)) \<subseteq> dom (map_of (users (snd (load_lines ls h))))"
proof (induction ls arbitrary: h)
  case Nil
  show ?case by simp
next
  case (Cons l ls)
  show ?case
  proof (cases "splitLine l")
    case (Inl e)
    then show ?thesis by (simp add: load_lines_Cons)
  next
    case (Inr p)
    obtain ts m where p: "p = (ts, m)" by (cases p)
    show ?thesis
    proof (cases "malformed m")
      case True
      then show ?thesis using Inr p by (simp add: load_lines_Cons)
    next
      case False
      have "dom (map_of (users h)) \<subseteq> dom (map_of (users (snd (handleLog ts m h))))"
        by (rule dom_handleLog)
      also have "\<dots> \<subseteq> dom (map_of (users (snd (load_lines ls (snd (handleLog ts m h))))))"
        by (rule Cons.IH)
      finally show ?thesis using Inr p False by (simp add: load_lines_Cons)
    qed
  qed
qed

lemma load_lines_populates:
  assumes "fst (load_lines ls h) = Inr ()" and "l \<in> set ls"
    and "splitLine l = Inr (ts, m)" and "event_name m = Some nm"
  shows "nm \<in> dom (map_of (users (snd (load_lines ls h))))"
  using assms
proof (induction ls arbitrary: h)
  case Nil
  then show ?case by simp
next
  case (Cons k ks)
  from Cons.prems(1) obtain ts' m' where k: "splitLine k = Inr (ts', m')"
    by (cases "splitLine k") (auto simp add: load_lines_Cons)
  with Cons.prems(1) have wf: "\<not> malformed m'"
    by (auto simp add: load_lines_Cons split: if_splits)
  let ?h = "snd (handleLog ts' m' h)"
  have step: "load_lines (k # ks) h = load_lines ks ?h"
    using k wf by (simp add: load_lines_Cons)
  show ?case
  proof (cases "l = k")
    case True
    then have "nm \<in> dom (map_of (users ?h))"
      using k Cons.prems(3,4) event_name_handleLog by simp
    then show ?thesis using load_lines_dom [of ?h ks] step by auto
  next
    case False
    then have "l \<in> set ks" using Cons.prems(2) by simp
    moreover have "fst (load_lines ks ?h) = Inr ()" using Cons.prems(1) step by simp
    ultimately show ?thesis using Cons.IH Cons.prems(3,4) step by simp
  qed
qed

lemma load_files_dom:
  "dom (map_of (users h)) \<subseteq> dom (map_of (users (snd (load_files fs h))))"
proof (induction fs arbitrary: h)
  case Nil
  show ?case by simp
next
  case (Cons f fs)
  have "dom (map_of (users h)) \<subseteq> dom (map_of (users (snd (load_lines f h))))"
    by (rule load_lines_dom)
  moreover have "dom (map_of (users (snd (load_lines f h))))
      \<subseteq> dom (map_of (users (snd (load_files fs (snd (load_lines f h))))))"
    by (rule Cons.IH)
  ultimately show ?case
    by (auto simp add: load_files_Cons split: sum.splits)
qed

lemma load_files_populates:
  assumes "fst (load_files fs h) = Inr ()" and "f \<in> set fs" and "l \<in> set f"
    and "splitLine l = Inr (ts, m)" and "event_name m = Some nm"
  shows "nm \<in> dom (map_of (users (snd (load_files fs h))))"
  using assms
proof (induction fs arbitrary: h)
  case Nil
  then show ?case by simp
next
  case (Cons k ks)
  let ?h = "snd (load_lines k h)"
  from Cons.prems(1) have ok: "fst (load_lines k h) = Inr ()"
    by (auto simp add: load_files_Cons split: sum.splits)
  then have step: "load_files (k # ks) h = load_files ks ?h"
    by (simp add: load_files_Cons)
  show ?case
  proof (cases "f = k")
    case True
    then have "nm \<in> dom (map_of (users ?h))"
      using load_lines_populates [OF ok _ Cons.prems(4,5)] Cons.prems(3) by simp
    then show ?thesis using load_files_dom [of ?h ks] step by auto
  next
    case False
    then have "f \<in> set ks" using Cons.prems(2) by simp
    moreover have "fst (load_files ks ?h) = Inr ()" using Cons.prems(1) step by simp
    ultimately show ?thesis using Cons.IH Cons.prems(3,4,5) step by simp
  qed
qed

lemma loadHistory_populates:
  assumes "fst (loadHistory files h) = Inr ()" and "f \<in> set files" and "l \<in> set (snd f)"
    and "splitLine l = Inr (ts, m)" and "event_name m = Some nm"
  shows "nm \<in> dom (map_of (users (snd (loadHistory files h))))"
proof -
  let ?fs = "map snd (sort_key fst files)"
  let ?h = "log_info ''Loading user history...'' h"
  from assms(1) have ok: "fst (load_files ?fs ?h) = Inr ()"
    by (auto simp add: loadHistory_eq Let_def split: sum.splits)
  have "snd f \<in> set ?fs" using assms(2) by simp
  from load_files_populates [OF ok this assms(3,4,5)]
  show ?thesis using ok by (simp add: loadHistory_eq Let_def users_log)
qed

section \<open>The lines of the scenarios, evaluated\<close>

lemma replicate_3: "replicate 3 c = [c, c, c]"
  by (simp add: numeral_3_eq_3)

lemma strptime_from_match:
  assumes "re_match strptime_rx s =
    Some ([], [(''f'', ''000''), (''S'', sS), (''M'', sM), (''H'', sH), (''y'', sy), (''m'', sm), (''d'', sd)])"
  shows "strptime s =
    (let y = py_int sy; year = (if y \<le> 68 then y + 2000 else y + 1900)
     in if days_in_month year (py_int sm) < py_int sd \<or> 59 < py_int sS then Inl ValueError
        else Inr (year, py_int sm, py_int sd, py_int sH, py_int sM, py_int sS, py_int ''000000''))"
  by (simp add: strptime_def assms group_def Let_def replicate_3)

lemmas py_int_eval = py_int_def strip_def isspace_def digit_val_def

lemma match_1000:
  "re_match strptime_rx ''01-01-24 10:00:00.000'' =
     Some ([], [(''f'', ''000''), (''S'', ''00''), (''M'', ''00''), (''H'', ''10''),
                (''y'', ''24''), (''m'', ''01''), (''d'', ''01'')])"
  by code_simp

lemma match_1005:
  "re_match strptime_rx ''01-01-24 10:05:00.000'' =
     Some ([], [(''f'', ''000''), (''S'', ''00''), (''M'', ''05''), (''H'', ''10''),
                (''y'', ''24''), (''m'', ''01''), (''d'', ''01'')])"
  by code_simp

lemma match_0900:
  "re_match strptime_rx ''01-01-24 09:00:00.000'' =
     Some ([], [(''f'', ''000''), (''S'', ''00''), (''M'', ''00''), (''H'', ''09''),
                (''y'', ''24''), (''m'', ''01''), (''d'', ''01'')])"
  by code_simp

lemma strptime_1000: "strptime ''01-01-24 10:00:00.000'' = Inr (2024, 1, 1, 10, 0, 0, 0)"
  by (simp add: strptime_from_match [OF match_1000] py_int_eval days_in_month_def isleap_def)

lemma strptime_1005: "strptime ''01-01-24 10:05:00.000'' = Inr (2024, 1, 1, 10, 5, 0, 0)"
  by (simp add: strptime_from_match [OF match_1005] py_int_eval days_in_month_def isleap_def)

lemma strptime_0900: "strptime ''01-01-24 09:00:00.000'' = Inr (2024, 1, 1, 9, 0, 0, 0)"
  by (simp add: strptime_from_match [OF match_0900] py_int_eval days_in_month_def isleap_def)

lemma split_connect:
  "split1 CHR '']'' (drop 1 (strip line_connect)) = [''01-01-24 10:00:00.000'', msg_connect]"
  by code_simp

lemma split_disconnect:
  "split1 CHR '']'' (drop 1 (strip line_disconnect)) = [''01-01-24 10:05:00.000'', msg_disconnect]"
  by code_simp

lemma split_stale:
  "split1 CHR '']'' (drop 1 (strip line_stale)) = [''01-01-24 09:00:00.000'', ''hello'']"
  by code_simp

lemma splitLine_connect: "splitLine line_connect = Inr ((2024, 1, 1, 10, 0, 0, 0), msg_connect)"
  unfolding splitLine_def split_connect by (simp add: strptime_1000)

lemma splitLine_disconnect:
  "splitLine line_disconnect = Inr ((2024, 1, 1, 10, 5, 0, 0), msg_disconnect)"
  unfolding splitLine_def split_disconnect by (simp add: strptime_1005)

lemma splitLine_stale: "splitLine line_stale = Inr ((2024, 1, 1, 9, 0, 0, 0), ''hello'')"
  unfolding splitLine_def split_stale by (simp add: strptime_0900)

lemma splitLine_bad: "splitLine line_bad = Inl ValueError"
  by code_simp

lemma search_connect:
  "re_search connect_rx msg_connect = Some [(''3'', ''5''), (''2'', ''5''), (''1'', ''Alice'')]"
  by code_simp

lemma search_disconnect:
  "re_search disconnect_rx msg_disconnect = Some [(''3'', ''6''), (''2'', ''6''), (''1'', ''Alice'')]"
  by code_simp

lemma kind_connect: "\<not> py_in ''disconnected'' msg_connect" "py_in ''fully connected'' msg_connect"
  by code_simp+

lemma kind_disconnect: "py_in ''disconnected'' msg_disconnect"
  by code_simp

lemma kind_hello: "\<not> py_in ''disconnected'' ''hello''" "\<not> py_in ''fully connected'' ''hello''"
  by code_simp+

lemma kind_bad: "py_in ''disconnected'' msg_bad" "re_search disconnect_rx msg_bad = None"
  by code_simp+

lemma wellformed_scenario:
  "\<not> malformed msg_connect" "\<not> malformed msg_disconnect" "\<not> malformed ''hello''"
  "malformed msg_bad"
  by (simp_all add: malformed_def kind_connect kind_disconnect kind_hello kind_bad
      search_connect search_disconnect)

lemma event_name_scenario:
  "event_name msg_connect = Some ''Alice''" "event_name msg_disconnect = Some ''Alice''"
  by (simp_all add: event_name_def kind_connect kind_disconnect search_connect
      search_disconnect group_def)

lemma users_scenario:
  "users (snd (handleLog ts msg_connect h)) =
     store_event True ts [(''3'', ''5''), (''2'', ''5''), (''1'', ''Alice'')] (users h)"
  "users (snd (handleLog ts msg_disconnect h)) =
     store_event False ts [(''3'', ''6''), (''2'', ''6''), (''1'', ''Alice'')] (users h)"
  "users (snd (handleLog ts ''hello'' h)) = users h"
  by (simp_all add: users_handleLog kind_connect kind_disconnect kind_hello search_connect
      search_disconnect)

lemma send_frame:
  "users (send r h) = users h" "lastUpdateTimestamp (send r h) = lastUpdateTimestamp h"
  by (simp_all add: send_def split: option.splits)

lemma update_presence_frame:
  "users (update_presence h) = users h"
  "lastUpdateTimestamp (update_presence h) = lastUpdateTimestamp h"
  "channel (bot (update_presence h)) = channel (bot h)"
  by (simp_all add: update_presence_def Let_def)

lemma update_eq:
  "update (f # fs) h =
     (let r = update_loop (rev f) (lastUpdateTimestamp h) h
      in case fst r of
           Inl e \<Rightarrow> (Inl e, snd r)
         | Inr nt \<Rightarrow> (Inr (), update_presence ((snd r)\<lparr>lastUpdateTimestamp := nt\<rparr>)))"
  unfolding update_def Let_def
  by (cases "update_loop (rev f) (lastUpdateTimestamp h) h") (simp split: sum.splits)

section \<open>The scenario of the two lines\<close>

lemma store_scenario:
  "store_event False (2024, 1, 1, 10, 5, 0, 0) [(''3'', ''6''), (''2'', ''6''), (''1'', ''Alice'')]
     (store_event True (2024, 1, 1, 10, 0, 0, 0) [(''3'', ''5''), (''2'', ''5''), (''1'', ''Alice'')] []) =
   [(''Alice'', \<lparr>name = ''Alice'', hoursAlive = 0, recordHoursAlive = 0, perks = [],
       online = False, lastSeen = (2024, 1, 1, 10, 5, 0, 0),
       lastLocation = (PStr ''6'', PStr ''6''), died = []\<rparr>)]"
  "store_event True (2024, 1, 1, 10, 0, 0, 0) [(''3'', ''5''), (''2'', ''5''), (''1'', ''Alice'')]
     (store_event False (2024, 1, 1, 10, 5, 0, 0) [(''3'', ''6''), (''2'', ''6''), (''1'', ''Alice'')] []) =
   [(''Alice'', \<lparr>name = ''Alice'', hoursAlive = 0, recordHoursAlive = 0, perks = [],
       online = False, lastSeen = (2024, 1, 1, 10, 5, 0, 0),
       lastLocation = (PStr ''6'', PStr ''6''), died = []\<rparr>)]"
  by (simp_all add: store_event_def group_def User_init_def Let_def)

lemma scenario_history:
  assumes "users h = []"
  shows "fst (loadHistory [(mt, [line_connect, line_disconnect])] h) = Inr ()"
    and "users (snd (loadHistory [(mt, [line_connect, line_disconnect])] h)) =
           [(''Alice'', \<lparr>name = ''Alice'', hoursAlive = 0, recordHoursAlive = 0, perks = [],
              online = False, lastSeen = (2024, 1, 1, 10, 5, 0, 0),
              lastLocation = (PStr ''6'', PStr ''6''), died = []\<rparr>)]"
proof -
  let ?h = "log_info ''Loading user history...'' h"
  have lines: "load_lines [line_connect, line_disconnect] ?h =
      (Inr (), snd (handleLog (2024, 1, 1, 10, 5, 0, 0) msg_disconnect
                 (snd (handleLog (2024, 1, 1, 10, 0, 0, 0) msg_connect ?h))))"
    by (simp add: load_lines_Cons splitLine_connect splitLine_disconnect wellformed_scenario)
  show "fst (loadHistory [(mt, [line_connect, line_disconnect])] h) = Inr ()"
    by (simp add: loadHistory_eq load_files_Cons lines)
  have "users (snd (loadHistory [(mt, [line_connect, line_disconnect])] h)) =
      store_event False (2024, 1, 1, 10, 5, 0, 0) [(''3'', ''6''), (''2'', ''6''), (''1'', ''Alice'')]
        (store_event True (2024, 1, 1, 10, 0, 0, 0) [(''3'', ''5''), (''2'', ''5''), (''1'', ''Alice'')] [])"
    by (simp add: loadHistory_eq load_files_Cons lines users_log users_scenario assms)
  then show "users (snd (loadHistory [(mt, [line_connect, line_disconnect])] h)) =
           [(''Alice'', \<lparr>name = ''Alice'', hoursAlive = 0, recordHoursAlive = 0, perks = [],
              online = False, lastSeen = (2024, 1, 1, 10, 5, 0, 0),
              lastLocation = (PStr ''6'', PStr ''6''), died = []\<rparr>)]"
    by (simp only: store_scenario)
qed

lemma scenario_update:
  assumes "users h = []" and w: "lastUpdateTimestamp h < (2024, 1, 1, 10, 0, 0, 0)"
  shows "fst (update [[line_connect, line_disconnect]] h) = Inr ()"
    and "users (snd (update [[line_connect, line_disconnect]] h)) =
           [(''Alice'', \<lparr>name = ''Alice'', hoursAlive = 0, recordHoursAlive = 0, perks = [],
              online = False, lastSeen = (2024, 1, 1, 10, 5, 0, 0),
              lastLocation = (PStr ''6'', PStr ''6''), died = []\<rparr>)]"
proof -
  have w5: "lastUpdateTimestamp h < (2024, 1, 1, 10, 5, 0, 0)"
    by (rule less_trans [OF w]) simp
  have loop: "update_loop [line_disconnect, line_connect] (lastUpdateTimestamp h) h =
      (Inr (max (max (lastUpdateTimestamp h) (2024, 1, 1, 10, 5, 0, 0)) (2024, 1, 1, 10, 0, 0, 0)),
       send (reply (2024, 1, 1, 10, 0, 0, 0) msg_connect
              (send (reply (2024, 1, 1, 10, 5, 0, 0) msg_disconnect h)
                 (snd (handleLog (2024, 1, 1, 10, 5, 0, 0) msg_disconnect h))))
         (snd (handleLog (2024, 1, 1, 10, 0, 0, 0) msg_connect
              (send (reply (2024, 1, 1, 10, 5, 0, 0) msg_disconnect h)
                 (snd (handleLog (2024, 1, 1, 10, 5, 0, 0) msg_disconnect h))))))"
    using w w5
    by (simp add: update_loop_Cons splitLine_connect splitLine_disconnect wellformed_scenario
        send_frame handleLog_frame)
  show "fst (update [[line_connect, line_disconnect]] h) = Inr ()"
    by (simp add: update_eq loop)
  have "users (snd (update [[line_connect, line_disconnect]] h)) =
      store_event True (2024, 1, 1, 10, 0, 0, 0) [(''3'', ''5''), (''2'', ''5''), (''1'', ''Alice'')]
        (store_event False (2024, 1, 1, 10, 5, 0, 0) [(''3'', ''6''), (''2'', ''6''), (''1'', ''Alice'')] [])"
    by (simp add: update_eq loop update_presence_frame send_frame users_scenario assms)
  then show "users (snd (update [[line_connect, line_disconnect]] h)) =
           [(''Alice'', \<lparr>name = ''Alice'', hoursAlive = 0, recordHoursAlive = 0, perks = [],
              online = False, lastSeen = (2024, 1, 1, 10, 5, 0, 0),
              lastLocation = (PStr ''6'', PStr ''6''), died = []\<rparr>)]"
    by (simp only: store_scenario)
qed

lemma handler0_simps:
  "users handler0 = []" "lastUpdateTimestamp handler0 = (2024, 1, 1, 9, 30, 0, 0)"
  "channel (bot handler0) = Some []" "notifyDisconnect handler0"
  by (simp_all add: handler0_def)

section \<open>The guarded assignment\<close>

lemma store_event_twice:
  "store_event b ts g (store_event b ts g us) = store_event b ts g us"
  by (simp add: store_event_def Let_def update_conv' split: option.splits)

lemma update_absent: "map_of al k = None \<Longrightarrow> AList.update k v al = al @ [(k, v)]"
  by (induction al) (auto split: if_splits)

lemma update_present_twice: "AList.update k v (AList.update k w al) = AList.update k v al"
  by (induction al) auto

lemma update_appended:
  "map_of al k = None \<Longrightarrow> AList.update k v (al @ [(k, w)]) = al @ [(k, v)]"
  by (induction al) (auto split: if_splits)

section \<open>Exceptions of \<open>splitLine\<close> and a name that is new\<close>

lemma strptime_error: "strptime s = Inl e \<Longrightarrow> e = ValueError"
  by (cases e) (auto simp add: strptime_def Let_def split: option.splits prod.splits if_splits)

lemma splitLine_error: "splitLine l = Inl e \<Longrightarrow> e = ValueError"
  by (cases e) (auto simp add: splitLine_def dest: strptime_error split: list.splits sum.splits)

lemma splitLine_no_bracket:
  assumes "CHR '']'' \<notin> set (drop 1 (strip l))"
  shows "splitLine l = Inl ValueError"
proof -
  have "dropWhile (\<lambda>c. c \<noteq> CHR '']'') (drop 1 (strip l)) = []"
    using assms by (simp only: dropWhile_eq_Nil_conv) blast
  then have "split1 CHR '']'' (drop 1 (strip l)) = [drop 1 (strip l)]"
    by (simp only: split1_def list.case)
  then show ?thesis
    by (simp only: splitLine_def list.case)
qed

lemma load_lines_append:
  "load_lines (xs @ ys) h =
     (case fst (load_lines xs h) of
        Inl e \<Rightarrow> load_lines xs h
      | Inr _ \<Rightarrow> load_lines ys (snd (load_lines xs h)))"
proof (induction xs arbitrary: h)
  case Nil
  show ?case by simp
next
  case (Cons x xs)
  show ?case
  proof (cases "splitLine x")
    case (Inl e)
    then show ?thesis by (simp add: load_lines_Cons)
  next
    case (Inr p)
    obtain ts m where p: "p = (ts, m)" by (cases p)
    show ?thesis
    proof (cases "malformed m")
      case True
      then show ?thesis using Inr p by (simp add: load_lines_Cons)
    next
      case False
      have s1: "load_lines (x # xs) h = load_lines xs (snd (handleLog ts m h))"
        using Inr p False by (simp add: load_lines_Cons)
      have s2: "load_lines ((x # xs) @ ys) h = load_lines (xs @ ys) (snd (handleLog ts m h))"
        using Inr p False by (simp add: load_lines_Cons)
      show ?thesis unfolding s1 s2 by (rule Cons.IH)
    qed
  qed
qed

lemma store_event_absent:
  assumes "map_of us (group g ''1'') = None"
  shows "store_event b ts g us =
    us @ [(group g ''1'',
           if lastSeen (User_init (group g ''1'')) < ts
           then (User_init (group g ''1''))
                  \<lparr>online := b, lastSeen := ts,
                   lastLocation := (PStr (group g ''2''), PStr (group g ''3''))\<rparr>
           else User_init (group g ''1''))]"
  using assms
  by (simp add: store_event_def Let_def update_absent update_appended)

lemma event_name_store:
  assumes "event_name m = Some nm"
  shows "\<exists>b g. group g ''1'' = nm \<and>
           (\<forall>ts h. users (snd (handleLog ts m h)) = store_event b ts g (users h))"
proof (cases "py_in ''disconnected'' m")
  case True
  with assms obtain g where g: "re_search disconnect_rx m = Some g" "group g ''1'' = nm"
    by (auto simp add: event_name_def)
  have "\<forall>ts h. users (snd (handleLog ts m h)) = store_event False ts g (users h)"
    using True g by (simp add: users_handleLog)
  with g(2) show ?thesis by blast
next
  case False
  with assms have fc: "py_in ''fully connected'' m"
    by (auto simp add: event_name_def split: if_splits)
  with False assms obtain g where g: "re_search connect_rx m = Some g" "group g ''1'' = nm"
    by (auto simp add: event_name_def)
  have "\<forall>ts h. users (snd (handleLog ts m h)) = store_event True ts g (users h)"
    using False fc g by (simp add: users_handleLog)
  with g(2) show ?thesis by blast
qed

section \<open>The watermark a cycle computes\<close>

lemma Max_insert_max:
  fixes a b :: "'a::linorder"
  assumes "finite S"
  shows "Max (insert (max a b) S) = Max (insert a (insert b S))"
  using assms by (cases "S = {}") (simp_all add: max.assoc)

lemma newer_stamp: "newer w l \<Longrightarrow> w < stamp l"
  by (auto simp add: newer_def stamp_def split: sum.splits)

lemma newer_Inr: "splitLine l = Inr (ts, m) \<Longrightarrow> newer w l = (w < ts) \<and> stamp l = ts"
  by (simp add: newer_def stamp_def)

lemma update_loop_watermark:
  assumes "update_loop ls nt h = (Inr nt', h')" and "lastUpdateTimestamp h \<le> nt"
  shows "nt' = Max (insert nt (stamp ` set (takeWhile (newer (lastUpdateTimestamp h)) ls)))"
  using assms
proof (induction ls arbitrary: nt h)
  case Nil
  then show ?case by simp
next
  case (Cons l ls)
  let ?w = "lastUpdateTimestamp h"
  from Cons.prems(1) obtain ts m where l: "splitLine l = Inr (ts, m)"
    by (cases "splitLine l") (auto simp add: update_loop_Cons)
  note nl = newer_Inr [OF l, of ?w]
  show ?case
  proof (cases "?w < ts")
    case True
    let ?h = "send (reply ts m h) (snd (handleLog ts m h))"
    from Cons.prems(1) l True have wf: "\<not> malformed m"
      by (auto simp add: update_loop_Cons split: if_splits)
    then have step: "update_loop ls (max nt ts) ?h = (Inr nt', h')"
      using Cons.prems(1) l True by (simp add: update_loop_Cons)
    have w: "lastUpdateTimestamp ?h = ?w"
      by (simp add: send_frame handleLog_frame)
    have "?w \<le> max nt ts" using Cons.prems(2) by (simp add: max.coboundedI1)
    with step w have "nt' = Max (insert (max nt ts) (stamp ` set (takeWhile (newer ?w) ls)))"
      using Cons.IH [of "max nt ts" ?h] by simp
    also have "\<dots> = Max (insert nt (insert ts (stamp ` set (takeWhile (newer ?w) ls))))"
      by (rule Max_insert_max) simp
    finally show ?thesis using True nl by simp
  next
    case False
    then have "ts \<le> nt" using Cons.prems(2) by simp
    then have "max nt ts = nt" by (simp add: max.absorb1)
    then show ?thesis using Cons.prems(1) l False nl by (simp add: update_loop_Cons)
  qed
qed

lemma update_loop_stop:
  assumes "update_loop ls nt h = (Inr nt', h')"
    and "dropWhile (newer (lastUpdateTimestamp h)) ls = x # xs"
  shows "stamp x \<le> lastUpdateTimestamp h"
  using assms
proof (induction ls arbitrary: nt h)
  case Nil
  then show ?case by simp
next
  case (Cons l ls)
  let ?w = "lastUpdateTimestamp h"
  from Cons.prems(1) obtain ts m where l: "splitLine l = Inr (ts, m)"
    by (cases "splitLine l") (auto simp add: update_loop_Cons)
  note nl = newer_Inr [OF l, of ?w]
  show ?case
  proof (cases "?w < ts")
    case True
    let ?h = "send (reply ts m h) (snd (handleLog ts m h))"
    from Cons.prems(1) l True have wf: "\<not> malformed m"
      by (auto simp add: update_loop_Cons split: if_splits)
    then have step: "update_loop ls (max nt ts) ?h = (Inr nt', h')"
      using Cons.prems(1) l True by (simp add: update_loop_Cons)
    have w: "lastUpdateTimestamp ?h = ?w"
      by (simp add: send_frame handleLog_frame)
    have "dropWhile (newer ?w) ls = x # xs"
      using Cons.prems(2) True nl by simp
    then show ?thesis using Cons.IH [OF step] w by simp
  next
    case False
    then have "x = l" using Cons.prems(2) nl by simp
    then show ?thesis using False nl by simp
  qed
qed

lemma sorted_scan:
  assumes "sorted (map stamp f)"
    and "dropWhile (newer w) (rev f) = [] \<or> (\<exists>x xs. dropWhile (newer w) (rev f) = x # xs \<and> stamp x \<le> w)"
  shows "set (takeWhile (newer w) (rev f)) = {l \<in> set f. newer w l}"
proof -
  let ?tk = "takeWhile (newer w) (rev f)" and ?dr = "dropWhile (newer w) (rev f)"
  have split: "rev f = ?tk @ ?dr" by simp
  have desc: "sorted_wrt (\<lambda>a b. stamp b \<le> stamp a) (rev f)"
    using assms(1) by (simp add: sorted_map sorted_wrt_rev)
  have old: "\<not> newer w y" if "y \<in> set ?dr" for y
  proof -
    from assms(2) that obtain x xs where d: "?dr = x # xs" and x: "stamp x \<le> w"
      by (cases ?dr) auto
    from desc split d have "sorted_wrt (\<lambda>a b. stamp b \<le> stamp a) (?tk @ x # xs)"
      by simp
    then have "\<forall>z \<in> set xs. stamp z \<le> stamp x"
      by (simp add: sorted_wrt_append)
    with that d x have "stamp y \<le> w" by auto
    then show ?thesis using newer_stamp [of w y] by auto
  qed
  have "set f = set ?tk \<union> set ?dr"
    using split by (metis set_append set_rev)
  moreover have "\<forall>y \<in> set ?tk. newer w y"
    by (auto dest: set_takeWhileD)
  ultimately show ?thesis using old by auto
qed

lemma scan_scenario:
  "newer w line_connect = (w < (2024, 1, 1, 10, 0, 0, 0))"
  "newer w line_disconnect = (w < (2024, 1, 1, 10, 5, 0, 0))"
  "newer w line_stale = (w < (2024, 1, 1, 9, 0, 0, 0))"
  "stamp line_connect = (2024, 1, 1, 10, 0, 0, 0)"
  "stamp line_disconnect = (2024, 1, 1, 10, 5, 0, 0)"
  "stamp line_stale = (2024, 1, 1, 9, 0, 0, 0)"
  by (simp_all add: newer_def stamp_def splitLine_connect splitLine_disconnect splitLine_stale)

section \<open>Events commute\<close>

lemma map_of_store_event: "map_of (store_event b ts g us) = abs_event b ts g (map_of us)"
  by (auto simp add: store_event_def abs_event_def Let_def update_conv' map_upd_triv
      split: option.splits)

lemma map_of_users_handleLog:
  "map_of (users (snd (handleLog ts m h))) = abs_step (ts, m) (map_of (users h))"
  by (simp add: users_handleLog abs_step_def map_of_store_event split: option.splits)

lemma abs_event_commute:
  assumes "ts1 \<noteq> ts2"
  shows "abs_event b1 ts1 g1 (abs_event b2 ts2 g2 um) =
         abs_event b2 ts2 g2 (abs_event b1 ts1 g1 um)"
proof (cases "group g1 ''1'' = group g2 ''1''")
  case False
  then show ?thesis
    by (auto simp add: abs_event_def Let_def fun_upd_twist)
next
  case True
  from assms consider "ts1 < ts2" | "ts2 < ts1" by (auto simp add: neq_iff)
  then show ?thesis
  proof cases
    case 1
    then show ?thesis using True
      by (auto simp add: abs_event_def Let_def split: option.splits
          dest: less_trans less_asym)
  next
    case 2
    then show ?thesis using True
      by (auto simp add: abs_event_def Let_def split: option.splits
          dest: less_trans less_asym)
  qed
qed

lemma abs_step_commute:
  assumes "fst e1 \<noteq> fst e2"
  shows "abs_step e1 (abs_step e2 um) = abs_step e2 (abs_step e1 um)"
  using abs_event_commute [OF assms]
  by (simp add: abs_step_def split: option.splits)

lemma handleLogs_Cons:
  "handleLogs ((ts, m) # es) h =
     (if malformed m then (Inl AttributeError, h)
      else handleLogs es (snd (handleLog ts m h)))"
proof (cases "malformed m")
  case True
  then show ?thesis by (simp add: handleLog_malformed)
next
  case False
  then obtain r where "fst (handleLog ts m h) = Inr r"
    using handleLog_wellformed by blast
  then obtain h' where "handleLog ts m h = (Inr r, h')"
    by (cases "handleLog ts m h") simp
  then show ?thesis using False by simp
qed

declare handleLogs.simps(2) [simp del]

lemma handleLogs_ok:
  "fst (handleLogs es h) = Inr () \<longleftrightarrow> (\<forall>e \<in> set es. \<not> malformed (snd e))"
proof (induction es arbitrary: h)
  case Nil
  show ?case by simp
next
  case (Cons e es)
  obtain ts m where e: "e = (ts, m)" by (cases e)
  show ?case using Cons.IH by (simp add: e handleLogs_Cons)
qed

lemma handleLogs_users:
  assumes "\<forall>e \<in> set es. \<not> malformed (snd e)"
  shows "map_of (users (snd (handleLogs es h))) = fold abs_step es (map_of (users h))"
  using assms
proof (induction es arbitrary: h)
  case Nil
  show ?case by simp
next
  case (Cons e es)
  obtain ts m where e: "e = (ts, m)" by (cases e)
  show ?case
    using Cons.prems Cons.IH [of "snd (handleLog ts m h)"]
    by (simp add: e handleLogs_Cons map_of_users_handleLog)
qed

lemma fold_abs_step_permuted:
  assumes "distinct (map fst evs)" and "mset evs' = mset evs"
  shows "fold abs_step evs' = fold abs_step evs"
proof -
  have "abs_step x \<circ> abs_step y = abs_step y \<circ> abs_step x"
    if "x \<in> set evs" and "y \<in> set evs" for x y
  proof (cases "x = y")
    case True
    then show ?thesis by simp
  next
    case False
    have "inj_on fst (set evs)" using assms(1) by (simp add: distinct_map)
    with that False have "fst x \<noteq> fst y" by (auto dest: inj_onD)
    then show ?thesis by (auto simp add: fun_eq_iff abs_step_commute)
  qed
  from fold_multiset_equiv [of evs abs_step evs', OF this] assms(2)
  show ?thesis by simp
qed

text \<open>
  C1. Events with distinct timestamps can be applied in any order: when a sequence of
  events, none of which raises, is applied by successive calls of \<open>handleLog\<close>, every
  rearrangement of the sequence, and so the chronological one, applies without raising
  too and leaves every name of the dictionary with the same entry, whatever the
  handler was at the start. The witness below is the test of the specification: connect
  at second 10 and disconnect at second 5 leave Alice online with \<open>lastSeen\<close> at second
  10, in both orders.
\<close>

theorem events_order_independent:
  assumes "distinct (map fst evs)" and "mset evs' = mset evs"
    and "fst (handleLogs evs h) = Inr ()"
  shows "fst (handleLogs evs' h) = Inr () \<and>
         map_of (users (snd (handleLogs evs' h))) = map_of (users (snd (handleLogs evs h))) \<and>
         fst (handleLogs (sort_key fst evs) h) = Inr () \<and>
         map_of (users (snd (handleLogs (sort_key fst evs) h))) =
           map_of (users (snd (handleLogs evs h)))"
proof -
  have perm: "fst (handleLogs ys h) = Inr () \<and>
      map_of (users (snd (handleLogs ys h))) = map_of (users (snd (handleLogs evs h)))"
    if "mset ys = mset evs" for ys
  proof -
    have wf: "\<forall>e \<in> set evs. \<not> malformed (snd e)"
      using assms(3) by (simp add: handleLogs_ok)
    have "set ys = set evs" using that by (rule mset_eq_setD)
    with wf have wf': "\<forall>e \<in> set ys. \<not> malformed (snd e)" by simp
    have "fold abs_step ys = fold abs_step evs"
      using assms(1) that by (rule fold_abs_step_permuted)
    then show ?thesis
      using wf wf' by (simp add: handleLogs_ok handleLogs_users)
  qed
  from perm [OF assms(2)] perm [of "sort_key fst evs"] show ?thesis by simp
qed

theorem events_order_independent_witness:
  "map_option (\<lambda>u. (online u, lastSeen u, lastLocation u))
     (map_of (users (snd (handleLogs
        [((2024, 1, 1, 0, 0, 10, 0), msg_connect), ((2024, 1, 1, 0, 0, 5, 0), msg_disconnect)]
        handler0))) ''Alice'') =
     Some (True, (2024, 1, 1, 0, 0, 10, 0), (PStr ''5'', PStr ''5'')) \<and>
   map_option (\<lambda>u. (online u, lastSeen u, lastLocation u))
     (map_of (users (snd (handleLogs
        [((2024, 1, 1, 0, 0, 5, 0), msg_disconnect), ((2024, 1, 1, 0, 0, 10, 0), msg_connect)]
        handler0))) ''Alice'') =
     Some (True, (2024, 1, 1, 0, 0, 10, 0), (PStr ''5'', PStr ''5''))"
proof -
  let ?chron = "[((2024, 1, 1, 0, 0, 5, 0), msg_disconnect),
      ((2024, 1, 1, 0, 0, 10, 0), msg_connect)] :: (datetime \<times> string) list"
  let ?other = "[((2024, 1, 1, 0, 0, 10, 0), msg_connect),
      ((2024, 1, 1, 0, 0, 5, 0), msg_disconnect)] :: (datetime \<times> string) list"
  have d: "distinct (map fst ?chron)" by simp
  have p: "mset ?other = mset ?chron" by simp
  have ok: "fst (handleLogs ?chron handler0) = Inr ()"
    by (simp add: handleLogs_ok wellformed_scenario)
  have chron: "users (snd (handleLogs ?chron handler0)) =
      [(''Alice'', \<lparr>name = ''Alice'', hoursAlive = 0, recordHoursAlive = 0, perks = [],
          online = True, lastSeen = (2024, 1, 1, 0, 0, 10, 0),
          lastLocation = (PStr ''5'', PStr ''5''), died = []\<rparr>)]"
    by (simp add: handleLogs_Cons wellformed_scenario users_scenario handler0_simps
        store_event_def group_def User_init_def Let_def)
  from events_order_independent [OF d p ok]
  have eq: "map_of (users (snd (handleLogs ?other handler0))) =
      map_of (users (snd (handleLogs ?chron handler0)))"
    by simp
  show ?thesis unfolding eq chron by simp
qed

text \<open>
  C2. Applying the same event twice gives the dictionary that applying it once gives: for
  every timestamp, message and handler, a second call of \<open>handleLog\<close> with the same
  arguments leaves \<open>users\<close>, and so \<open>online\<close>, \<open>lastSeen\<close> and \<open>lastLocation\<close> of every
  entity, as the first call left it.
\<close>

theorem handleLog_idempotent:
  "users (snd (handleLog ts m (snd (handleLog ts m h)))) = users (snd (handleLog ts m h))"
  by (simp add: users_handleLog store_event_twice split: option.splits)

theorem handleLog_idempotent_witness:
  "users (snd (handleLog (2024, 1, 1, 10, 5, 0, 0) msg_disconnect
      (snd (handleLog (2024, 1, 1, 10, 5, 0, 0) msg_disconnect handler0)))) =
   [(''Alice'', \<lparr>name = ''Alice'', hoursAlive = 0, recordHoursAlive = 0, perks = [],
       online = False, lastSeen = (2024, 1, 1, 10, 5, 0, 0),
       lastLocation = (PStr ''6'', PStr ''6''), died = []\<rparr>)]"
  using handleLog_idempotent [of "(2024, 1, 1, 10, 5, 0, 0)" msg_disconnect handler0]
  by (simp add: users_scenario handler0_simps store_event_def group_def User_init_def Let_def)

text \<open>
  C3, as the code has it. A cycle reads the file backwards and stops at the first line
  whose timestamp is not above the watermark. When the cycle completes without an
  exception, the new watermark is the maximum of the old one and the timestamps of the
  lines read before the stop, that is of the lines after the last line of the file
  whose timestamp is not above the old watermark; it is the old watermark when the last
  line of the file is not above it. When the timestamps of the file do not decrease
  from line to line, the lines read are all the lines above the old watermark.
\<close>

theorem watermark_after_cycle:
  assumes "update (f # fs) h = (Inr (), h')" and "w = lastUpdateTimestamp h"
  shows "lastUpdateTimestamp h' = Max (insert w (stamp ` set (takeWhile (newer w) (rev f)))) \<and>
         (takeWhile (newer w) (rev f) = [] \<longrightarrow> lastUpdateTimestamp h' = w) \<and>
         (sorted (map stamp f) \<longrightarrow>
            lastUpdateTimestamp h' = Max (insert w (stamp ` {l \<in> set f. newer w l})))"
proof -
  obtain r h1 where loop: "update_loop (rev f) w h = (r, h1)"
    by (cases "update_loop (rev f) w h")
  with assms obtain nt where r: "r = Inr nt"
    by (cases r) (auto simp add: update_eq)
  have h': "lastUpdateTimestamp h' = nt"
    using assms loop r by (auto simp add: update_eq update_presence_frame)
  have loop': "update_loop (rev f) w h = (Inr nt, h1)" using loop r by simp
  have main: "nt = Max (insert w (stamp ` set (takeWhile (newer w) (rev f))))"
    using update_loop_watermark [OF loop'] assms(2) by simp
  have stop: "dropWhile (newer w) (rev f) = [] \<or>
      (\<exists>x xs. dropWhile (newer w) (rev f) = x # xs \<and> stamp x \<le> w)"
  proof (cases "dropWhile (newer w) (rev f)")
    case Nil
    then show ?thesis by simp
  next
    case (Cons x xs)
    then have "stamp x \<le> w"
      using update_loop_stop [OF loop', of x xs] assms(2) by simp
    with Cons show ?thesis by simp
  qed
  have "sorted (map stamp f) \<longrightarrow>
      set (takeWhile (newer w) (rev f)) = {l \<in> set f. newer w l}"
    using sorted_scan [OF _ stop] by blast
  then show ?thesis using h' main by auto
qed

theorem watermark_after_cycle_witness:
  "fst (update [[line_stale, line_connect, line_disconnect]] handler0) = Inr () \<and>
   sorted (map stamp [line_stale, line_connect, line_disconnect]) \<and>
   lastUpdateTimestamp handler0 = (2024, 1, 1, 9, 30, 0, 0) \<and>
   lastUpdateTimestamp (snd (update [[line_stale, line_connect, line_disconnect]] handler0)) =
     (2024, 1, 1, 10, 5, 0, 0)"
proof -
  let ?f = "[line_stale, line_connect, line_disconnect]"
  let ?h5 = "send (reply (2024, 1, 1, 10, 5, 0, 0) msg_disconnect handler0)
               (snd (handleLog (2024, 1, 1, 10, 5, 0, 0) msg_disconnect handler0))"
  let ?h0 = "send (reply (2024, 1, 1, 10, 0, 0, 0) msg_connect ?h5)
               (snd (handleLog (2024, 1, 1, 10, 0, 0, 0) msg_connect ?h5))"
  have "\<exists>nt. update_loop (rev ?f) (lastUpdateTimestamp handler0) handler0 = (Inr nt, ?h0)"
    by (simp add: update_loop_Cons splitLine_connect splitLine_disconnect splitLine_stale
        wellformed_scenario send_frame handleLog_frame handler0_simps)
  then have ok: "fst (update [?f] handler0) = Inr ()"
    by (auto simp add: update_eq)
  then have "update [?f] handler0 = (Inr (), snd (update [?f] handler0))"
    by (metis prod.collapse)
  from watermark_after_cycle [OF this refl]
  have "lastUpdateTimestamp (snd (update [?f] handler0)) = (2024, 1, 1, 10, 5, 0, 0)"
    by (simp add: scan_scenario handler0_simps)
  then show ?thesis using ok by (simp add: scan_scenario handler0_simps)
qed

text \<open>The claim as the specification states it fails on a file whose timestamps are not
  in order: with the watermark at 09:30:00 and the lines of 10:05:00, 09:00:00 and
  10:00:00, the cycle reads the last line, stops at the second and sets the watermark
  to 10:00:00, while the maximum over the lines above the old watermark is 10:05:00.\<close>

theorem watermark_after_cycle_counterexample:
  "lastUpdateTimestamp handler0 = (2024, 1, 1, 9, 30, 0, 0) \<and>
   fst (update [[line_disconnect, line_stale, line_connect]] handler0) = Inr () \<and>
   lastUpdateTimestamp (snd (update [[line_disconnect, line_stale, line_connect]] handler0)) =
     (2024, 1, 1, 10, 0, 0, 0) \<and>
   Max (stamp ` set (filter (newer (lastUpdateTimestamp handler0))
          [line_disconnect, line_stale, line_connect])) = (2024, 1, 1, 10, 5, 0, 0)"
proof -
  let ?f = "[line_disconnect, line_stale, line_connect]"
  let ?h0 = "send (reply (2024, 1, 1, 10, 0, 0, 0) msg_connect handler0)
               (snd (handleLog (2024, 1, 1, 10, 0, 0, 0) msg_connect handler0))"
  have loop: "update_loop [line_connect, line_stale, line_disconnect]
        (lastUpdateTimestamp handler0) handler0 =
      (Inr (2024, 1, 1, 10, 0, 0, 0), ?h0)"
    by (simp add: update_loop_Cons splitLine_connect splitLine_stale
        wellformed_scenario send_frame handleLog_frame handler0_simps)
  have "fst (update [?f] handler0) = Inr ()"
    and "lastUpdateTimestamp (snd (update [?f] handler0)) = (2024, 1, 1, 10, 0, 0, 0)"
    by (simp_all add: update_eq loop update_presence_frame)
  then show ?thesis by (simp add: scan_scenario handler0_simps)
qed

text \<open>
  C4. A line whose timestamp is not above the watermark held when it is processed
  produces no notification: \<open>handleLog\<close> returns no message for it, and the loop of a cycle
  stops at it without calling \<open>handleLog\<close>, leaving the handler, and so the channel, as it
  was. This holds for every state of the handler, so also when the line is read again in
  a later cycle.
\<close>

theorem no_notification_at_or_below_watermark:
  assumes "ts \<le> lastUpdateTimestamp h"
  shows "(\<forall>s. fst (handleLog ts m h) \<noteq> Inr (Some s)) \<and>
         channel (bot (snd (handleLog ts m h))) = channel (bot h) \<and>
         (splitLine l = Inr (ts, m) \<longrightarrow> update_loop (l # ls) nt h = (Inr (max nt ts), h))"
proof -
  have nl: "\<not> lastUpdateTimestamp h < ts" using assms by simp
  have "\<forall>s. fst (handleLog ts m h) \<noteq> Inr (Some s)"
    using nl
    by (simp add: handleLog_def Let_def split_beta getUser_frame setUser_def
        split: option.splits)
  moreover have "splitLine l = Inr (ts, m) \<longrightarrow> update_loop (l # ls) nt h = (Inr (max nt ts), h)"
    using nl by (simp add: update_loop_Cons)
  ultimately show ?thesis by (simp add: handleLog_frame)
qed

theorem no_notification_at_or_below_watermark_witness:
  "(2024, 1, 1, 9, 0, 0, 0) \<le> lastUpdateTimestamp handler0 \<and>
   notifyDisconnect handler0 \<and>
   fst (handleLog (2024, 1, 1, 9, 0, 0, 0) msg_disconnect handler0) = Inr None \<and>
   channel (bot (snd (handleLog (2024, 1, 1, 9, 0, 0, 0) msg_disconnect handler0))) = Some [] \<and>
   update_loop [line_stale, line_disconnect] (lastUpdateTimestamp handler0) handler0 =
     (Inr (lastUpdateTimestamp handler0), handler0)"
proof -
  have le: "(2024, 1, 1, 9, 0, 0, 0) \<le> lastUpdateTimestamp handler0"
    by (simp add: handler0_simps)
  obtain r where r: "fst (handleLog (2024, 1, 1, 9, 0, 0, 0) msg_disconnect handler0) = Inr r"
    using handleLog_wellformed [OF wellformed_scenario(2)] by blast
  have "r = None"
    using no_notification_at_or_below_watermark [OF le, of msg_disconnect] r
    by (cases r) simp_all
  moreover have "update_loop [line_stale, line_disconnect] (lastUpdateTimestamp handler0) handler0 =
      (Inr (max (lastUpdateTimestamp handler0) (2024, 1, 1, 9, 0, 0, 0)), handler0)"
    using no_notification_at_or_below_watermark [OF le, of "''hello''" line_stale]
      splitLine_stale
    by simp
  ultimately show ?thesis
    using r le no_notification_at_or_below_watermark [OF le, of msg_disconnect]
    by (simp add: handler0_simps)
qed

text \<open>
  C5, as the code has it. A line whose bracketed timestamp cannot be parsed makes
  \<open>splitLine\<close> raise \<open>ValueError\<close>; a line with no closing bracket is such a line. Neither
  \<open>loadHistory\<close> nor \<open>update\<close> catches the exception, so the batch ends at the line: the
  lines before it in reading order have taken effect, the lines and files after it are
  not read, and a cycle whose file ends with the line is left without any effect, the
  watermark not advanced.
\<close>

theorem malformed_line_aborts_batch:
  assumes "splitLine l = Inl e"
  shows "e = ValueError \<and>
         (fst (load_lines pre h) = Inr () \<longrightarrow>
            load_lines (pre @ l # post) h = (Inl ValueError, snd (load_lines pre h))) \<and>
         load_files ((l # post) # fs) h = (Inl ValueError, h) \<and>
         update_loop (l # post) nt h = (Inl ValueError, h) \<and>
         update ((pre @ [l]) # fs) h = (Inl ValueError, h) \<and>
         (CHR '']'' \<notin> set (drop 1 (strip k)) \<longrightarrow> splitLine k = Inl ValueError)"
proof -
  have e: "e = ValueError" using assms by (rule splitLine_error)
  have l: "splitLine l = Inl ValueError" using assms e by simp
  have "fst (load_lines pre h) = Inr () \<longrightarrow>
      load_lines (pre @ l # post) h = (Inl ValueError, snd (load_lines pre h))"
    by (simp add: load_lines_append load_lines_Cons l)
  moreover have "load_files ((l # post) # fs) h = (Inl ValueError, h)"
    by (simp add: load_files_Cons load_lines_Cons l)
  moreover have "update_loop (l # post) nt h = (Inl ValueError, h)"
    by (simp add: update_loop_Cons l)
  moreover have "update ((pre @ [l]) # fs) h = (Inl ValueError, h)"
    by (simp add: update_eq update_loop_Cons l)
  ultimately show ?thesis using e splitLine_no_bracket by blast
qed

theorem malformed_line_aborts_batch_witness:
  "splitLine line_bad = Inl ValueError \<and>
   load_lines [line_bad, line_connect] handler0 = (Inl ValueError, handler0) \<and>
   update [[line_connect, line_bad]] handler0 = (Inl ValueError, handler0)"
  using malformed_line_aborts_batch
      [OF splitLine_bad, where pre = "[]" and h = handler0 and post = "[line_connect]"]
    malformed_line_aborts_batch
      [OF splitLine_bad, where pre = "[line_connect]" and h = handler0 and fs = "[]"]
  by (simp add: splitLine_bad)

text \<open>The claim as the specification states it fails: a history file whose first line has
  no bracket and whose second line connects Alice raises and leaves the dictionary
  empty, where skipping the first line would have recorded Alice; an update cycle over
  a file that ends with the line raises too.\<close>

theorem malformed_line_aborts_batch_counterexample:
  "fst (loadHistory [(0::nat, [line_bad, line_connect])] handler0) = Inl ValueError \<and>
   users (snd (loadHistory [(0::nat, [line_bad, line_connect])] handler0)) = [] \<and>
   map fst (users (snd (loadHistory [(0::nat, [line_connect])] handler0))) = [''Alice''] \<and>
   fst (update [[line_connect, line_bad]] handler0) = Inl ValueError \<and>
   users (snd (update [[line_connect, line_bad]] handler0)) = []"
proof -
  have "load_lines [line_bad, line_connect] (log_info ''Loading user history...'' handler0) =
      (Inl ValueError, log_info ''Loading user history...'' handler0)"
    by (simp add: load_lines_Cons splitLine_bad)
  then have a: "fst (loadHistory [(0::nat, [line_bad, line_connect])] handler0) = Inl ValueError"
    and b: "users (snd (loadHistory [(0::nat, [line_bad, line_connect])] handler0)) = []"
    by (simp_all add: loadHistory_eq load_files_Cons users_log handler0_simps)
  have c: "map fst (users (snd (loadHistory [(0::nat, [line_connect])] handler0))) = [''Alice'']"
    by (simp add: loadHistory_eq load_files_Cons load_lines_Cons splitLine_connect
        wellformed_scenario users_log users_scenario handler0_simps store_event_def group_def
        Let_def)
  have "update [[line_connect, line_bad]] handler0 = (Inl ValueError, handler0)"
    by (simp add: update_eq update_loop_Cons splitLine_bad)
  then show ?thesis using a b c by (simp add: handler0_simps)
qed

text \<open>
  C6, as the code has it. A message with the \<open>disconnected\<close> marker, or without it with the
  \<open>fully connected\<close> marker, that the pattern of its branch does not match makes
  \<open>handleLog\<close> raise \<open>AttributeError\<close> to its caller: \<open>re.search\<close> returns \<open>None\<close> and
  \<open>matches.group(1)\<close> fails. Nothing is logged and no entity is touched: the handler is
  as it was. The history replay and the update cycle do not catch the exception.
\<close>

theorem malformed_event_raises:
  assumes "malformed m"
  shows "handleLog ts m h = (Inl AttributeError, h) \<and>
         (splitLine l = Inr (ts, m) \<longrightarrow>
            load_lines (l # ls) h = (Inl AttributeError, h) \<and>
            (lastUpdateTimestamp h < ts \<longrightarrow>
               update_loop (l # ls) nt h = (Inl AttributeError, h)))"
  using assms by (simp add: handleLog_malformed load_lines_Cons update_loop_Cons)

theorem malformed_event_raises_witness:
  "malformed msg_bad \<and>
   handleLog (2024, 1, 1, 10, 0, 0, 0) msg_bad handler0 = (Inl AttributeError, handler0)"
  using malformed_event_raises [of msg_bad "(2024, 1, 1, 10, 0, 0, 0)" handler0]
    wellformed_scenario(4)
  by simp

text \<open>The claim as the specification states it fails: the message \<open>somebody disconnected\<close>
  has the marker and no quoted name, and the exception reaches the caller.\<close>

theorem malformed_event_raises_counterexample:
  "py_in ''disconnected'' msg_bad \<and> re_search disconnect_rx msg_bad = None \<and>
   fst (handleLog (2024, 1, 1, 10, 0, 0, 0) msg_bad handler0) = Inl AttributeError \<and>
   logged (bot (snd (handleLog (2024, 1, 1, 10, 0, 0, 0) msg_bad handler0))) = []"
  by (simp add: kind_bad handleLog_malformed wellformed_scenario(4) handler0_def)

text \<open>
  C7. History replay leaves the watermark \<open>lastUpdateTimestamp\<close> as it was and sends
  nothing to the channel, whatever the files hold and also when a line makes it raise;
  and when it completes, the name of every connect or disconnect line of every file is
  a key of the dictionary.
\<close>

theorem loadHistory_seeds_state_only:
  "lastUpdateTimestamp (snd (loadHistory files h)) = lastUpdateTimestamp h \<and>
   channel (bot (snd (loadHistory files h))) = channel (bot h) \<and>
   (fst (loadHistory files h) = Inr () \<longrightarrow>
      (\<forall>f \<in> set files. \<forall>l \<in> set (snd f). \<forall>ts m nm.
         splitLine l = Inr (ts, m) \<longrightarrow> event_name m = Some nm \<longrightarrow>
         nm \<in> dom (map_of (users (snd (loadHistory files h))))))"
  using loadHistory_frame [of files h] loadHistory_populates [of files h]
  by blast

theorem loadHistory_seeds_state_only_witness:
  "fst (loadHistory [(0::nat, [line_connect, line_disconnect])] handler0) = Inr () \<and>
   lastUpdateTimestamp handler0 < (2024, 1, 1, 10, 0, 0, 0) \<and>
   lastUpdateTimestamp (snd (loadHistory [(0::nat, [line_connect, line_disconnect])] handler0)) =
     lastUpdateTimestamp handler0 \<and>
   channel (bot (snd (loadHistory [(0::nat, [line_connect, line_disconnect])] handler0))) = Some [] \<and>
   ''Alice'' \<in> dom (map_of (users (snd (loadHistory [(0::nat, [line_connect, line_disconnect])] handler0))))"
proof -
  let ?files = "[(0::nat, [line_connect, line_disconnect])]"
  have ok: "fst (loadHistory ?files handler0) = Inr ()"
    by (rule scenario_history) (simp add: handler0_simps)
  have "''Alice'' \<in> dom (map_of (users (snd (loadHistory ?files handler0))))"
    using loadHistory_seeds_state_only [of ?files handler0] ok splitLine_connect
      event_name_scenario(1)
    by simp
  then show ?thesis
    using loadHistory_seeds_state_only [of ?files handler0] ok
    by (simp add: handler0_simps)
qed

text \<open>
  C8. Starting from an empty dictionary, the line
  \<open>[01-01-24 10:00:00.000]"Alice" fully connected (5,5,0)\<close> followed by
  \<open>[01-01-24 10:05:00.000]"Alice" disconnected (6,6,0)\<close> leaves one entry, Alice, with
  \<open>online = False\<close>, \<open>lastSeen\<close> the datetime 2024-01-01 10:05:00 and \<open>lastLocation\<close> the
  coordinates 6 and 6, which the code keeps as the strings the pattern matched. This is
  so for the history replay, which reads the two lines forwards, and for an update
  cycle, which reads them backwards, when the watermark is before 10:00:00.
\<close>

theorem alice_connect_then_disconnect:
  assumes "users h = []"
  shows "fst (loadHistory [(mt, [line_connect, line_disconnect])] h) = Inr () \<and>
         users (snd (loadHistory [(mt, [line_connect, line_disconnect])] h)) =
           [(''Alice'', \<lparr>name = ''Alice'', hoursAlive = 0, recordHoursAlive = 0, perks = [],
              online = False, lastSeen = (2024, 1, 1, 10, 5, 0, 0),
              lastLocation = (PStr ''6'', PStr ''6''), died = []\<rparr>)] \<and>
         (lastUpdateTimestamp h < (2024, 1, 1, 10, 0, 0, 0) \<longrightarrow>
            fst (update [[line_connect, line_disconnect]] h) = Inr () \<and>
            users (snd (update [[line_connect, line_disconnect]] h)) =
              [(''Alice'', \<lparr>name = ''Alice'', hoursAlive = 0, recordHoursAlive = 0, perks = [],
                 online = False, lastSeen = (2024, 1, 1, 10, 5, 0, 0),
                 lastLocation = (PStr ''6'', PStr ''6''), died = []\<rparr>)])"
  using scenario_history [OF assms, of mt] scenario_update [OF assms]
  by simp

theorem alice_connect_then_disconnect_witness:
  "users handler0 = [] \<and>
   lastUpdateTimestamp handler0 < (2024, 1, 1, 10, 0, 0, 0) \<and>
   map (\<lambda>(k, u). (k, online u, lastSeen u, lastLocation u))
     (users (snd (loadHistory [(0::nat, [line_connect, line_disconnect])] handler0))) =
     [(''Alice'', False, (2024, 1, 1, 10, 5, 0, 0), (PStr ''6'', PStr ''6''))] \<and>
   map (\<lambda>(k, u). (k, online u, lastSeen u, lastLocation u))
     (users (snd (update [[line_connect, line_disconnect]] handler0))) =
     [(''Alice'', False, (2024, 1, 1, 10, 5, 0, 0), (PStr ''6'', PStr ''6''))]"
proof -
  have e: "users handler0 = []" by (simp add: handler0_simps)
  have w: "lastUpdateTimestamp handler0 < (2024, 1, 1, 10, 0, 0, 0)" by (simp add: handler0_simps)
  show ?thesis
    using e w alice_connect_then_disconnect [OF e, of "0::nat"] by simp
qed

text \<open>
  C9. A connect or disconnect message about a name that is not a key of the dictionary
  adds one entry for the name, at the end. \<open>getUser\<close> creates it with the defaults of
  \<open>User\<close>: \<open>online = False\<close>, \<open>lastSeen = datetime(1, 1, 1)\<close>, \<open>lastLocation = (0, 0)\<close>. When
  the timestamp is not after \<open>datetime(1, 1, 1)\<close> the event is stale and the entry stays
  the default one; otherwise the entry is then assigned the timestamp of the event.
\<close>

theorem unknown_name_inserted:
  assumes "event_name m = Some nm" and "map_of (users h) nm = None"
  shows "fst (getUser nm h) = User_init nm \<and>
         users (snd (getUser nm h)) = users h @ [(nm, User_init nm)] \<and>
         (\<exists>u. users (snd (handleLog ts m h)) = users h @ [(nm, u)] \<and>
              (ts \<le> (1, 1, 1, 0, 0, 0, 0) \<longrightarrow>
                 u = \<lparr>name = nm, hoursAlive = 0, recordHoursAlive = 0, perks = [],
                      online = False, lastSeen = (1, 1, 1, 0, 0, 0, 0),
                      lastLocation = (PInt 0, PInt 0), died = []\<rparr>) \<and>
              ((1, 1, 1, 0, 0, 0, 0) < ts \<longrightarrow> lastSeen u = ts))"
proof -
  from event_name_store [OF assms(1)] obtain b g where g: "group g ''1'' = nm"
    and u: "\<And>ts h. users (snd (handleLog ts m h)) = store_event b ts g (users h)"
    by blast
  have absent: "map_of (users h) (group g ''1'') = None"
    using assms(2) g by simp
  have "fst (getUser nm h) = User_init nm"
    using assms(2) by (simp add: users_getUser)
  moreover have "users (snd (getUser nm h)) = users h @ [(nm, User_init nm)]"
    using assms(2) by (simp add: users_getUser update_absent)
  moreover have "\<exists>u. users (snd (handleLog ts m h)) = users h @ [(nm, u)] \<and>
      (ts \<le> (1, 1, 1, 0, 0, 0, 0) \<longrightarrow>
         u = \<lparr>name = nm, hoursAlive = 0, recordHoursAlive = 0, perks = [],
              online = False, lastSeen = (1, 1, 1, 0, 0, 0, 0),
              lastLocation = (PInt 0, PInt 0), died = []\<rparr>) \<and>
      ((1, 1, 1, 0, 0, 0, 0) < ts \<longrightarrow> lastSeen u = ts)"
    unfolding u store_event_absent [OF absent] g
    by (auto simp add: User_init_def)
  ultimately show ?thesis by blast
qed

theorem unknown_name_inserted_witness:
  "event_name msg_connect = Some ''Alice'' \<and> map_of (users handler0) ''Alice'' = None \<and>
   users (snd (handleLog (1, 1, 1, 0, 0, 0, 0) msg_connect handler0)) =
     [(''Alice'', \<lparr>name = ''Alice'', hoursAlive = 0, recordHoursAlive = 0, perks = [],
         online = False, lastSeen = (1, 1, 1, 0, 0, 0, 0),
         lastLocation = (PInt 0, PInt 0), died = []\<rparr>)]"
proof -
  have a: "map_of (users handler0) ''Alice'' = None" by (simp add: handler0_simps)
  show ?thesis
    using unknown_name_inserted [OF event_name_scenario(1) a, of "(1, 1, 1, 0, 0, 0, 0)"] a
    by (auto simp add: event_name_scenario handler0_simps)
qed

text \<open>
  C10. A cycle reads the first file of the match list only: the files after it do not
  change what the cycle does. With no match the cycle reads no line: it returns with the
  dictionary, the watermark, the channel and the log as they were.
\<close>

theorem update_reads_first_file_only:
  "update (f # fs) h = update [f] h \<and>
   fst (update [] h) = Inr () \<and>
   users (snd (update [] h)) = users h \<and>
   lastUpdateTimestamp (snd (update [] h)) = lastUpdateTimestamp h \<and>
   channel (bot (snd (update [] h))) = channel (bot h) \<and>
   logged (bot (snd (update [] h))) = logged (bot h)"
  by (simp add: update_def update_presence_def Let_def)

theorem update_reads_first_file_only_witness:
  "update [[line_connect], [line_disconnect]] handler0 = update [[line_connect]] handler0 \<and>
   users (snd (update [] handler0)) = users handler0"
  using update_reads_first_file_only [of "[line_connect]" "[[line_disconnect]]" handler0]
  by simp

end
